theory Spec2Isabelle
  imports Main
begin

section \<open>The font watch runner of src/core/fontwatchrunner.js\<close>

text \<open>
  A \<open>FontWatchRunner\<close> owns two font rulers, measures them on every check and calls one
  of two callbacks. Its collaborators (the rulers with their sizer, the clock
  \<open>getTime\<close> and the scheduler \<open>asyncCall\<close>) are not part of the file: the model
  takes what they return from an environment and records every call the runner makes
  on them in a trace, in the order of the calls. A name cannot end in an underscore
  here, so the private members (\<open>check_\<close>, \<open>finish_\<close>, \<open>fontFamily_\<close>, ...) are written
  without theirs.
\<close>

subsection \<open>Data\<close>

text \<open>
  A measurement \<open>{width: number, height: number}\<close>; the fields are pixel counts, read
  here as integers. A nullable measurement is a \<open>size_rec option\<close>, \<open>None\<close> for
  \<open>null\<close>.
\<close>

record size_rec =
  width :: int
  height :: int

datatype ruler = A | B

datatype callback = Active | Inactive

text \<open>The calls the runner makes on its collaborators.\<close>

datatype event =
    Insert ruler
  | SetFont ruler string string
  | GetSize ruler
  | Remove ruler
  | AsyncCall nat
  | Callback callback string string

text \<open>
  What the collaborators answer. The constructor measures each ruler once; \<open>start\<close>
  reads the clock once and, with the fallback bug, measures each ruler once; the
  \<open>k\<close>-th call of \<open>check\<close> (counted from 0) measures each ruler once and reads the
  clock at most once.
\<close>

record env =
  ctorSizeA :: "size_rec option"
  ctorSizeB :: "size_rec option"
  startTime :: int
  startSizeA :: "size_rec option"
  startSizeB :: "size_rec option"
  tickTime :: "nat \<Rightarrow> int"
  tickSizeA :: "nat \<Rightarrow> size_rec option"
  tickSizeB :: "nat \<Rightarrow> size_rec option"

text \<open>
  The fields of the object (\<open>started\<close> is undefined until \<open>start\<close> sets it), and the
  world around it: how many times \<open>check\<close> has been entered, the delays of the closures
  waiting in the scheduler (each of them calls \<open>check\<close> on this object), and the
  trace.
\<close>

record state =
  fontFamily :: string
  fontDescription :: string
  fontTestString :: string
  hasWebkitFallbackBug :: bool
  webkitFallbackSizeA :: "size_rec option"
  webkitFallbackSizeB :: "size_rec option"
  originalSizeA :: "size_rec option"
  originalSizeB :: "size_rec option"
  started :: "int option"
  checks :: nat
  queue :: "nat list"
  trace :: "event list"

subsection \<open>Constants\<close>

definition DEFAULT_FONTS_A :: string where
  "DEFAULT_FONTS_A = ''arial,'URW Gothic L',sans-serif''"

definition DEFAULT_FONTS_B :: string where
  "DEFAULT_FONTS_B = ''Georgia,'Century Schoolbook L',serif''"

definition DEFAULT_TEST_STRING :: string where
  "DEFAULT_TEST_STRING = ''BESbswy''"

subsection \<open>Methods\<close>

definition emit :: "event \<Rightarrow> state \<Rightarrow> state" where
  "emit e s = s\<lparr>trace := trace s @ [e]\<rparr>"

text \<open>
  The constructor. \<open>opt_fontTestString || DEFAULT_TEST_STRING\<close> takes the default for
  a missing and for an empty string.
\<close>

definition FontWatchRunner ::
  "env \<Rightarrow> string \<Rightarrow> string \<Rightarrow> bool \<Rightarrow> string option \<Rightarrow> state" where
  "FontWatchRunner e family description bug opt_fontTestString =
     \<lparr> fontFamily = family,
       fontDescription = description,
       fontTestString =
         (case opt_fontTestString of
            None \<Rightarrow> DEFAULT_TEST_STRING
          | Some t \<Rightarrow> if t = [] then DEFAULT_TEST_STRING else t),
       hasWebkitFallbackBug = bug,
       webkitFallbackSizeA = None,
       webkitFallbackSizeB = None,
       originalSizeA = ctorSizeA e,
       originalSizeB = ctorSizeB e,
       started = None,
       checks = 0,
       queue = [],
       trace =
         [Insert A, SetFont A DEFAULT_FONTS_A description, GetSize A,
          Insert B, SetFont B DEFAULT_FONTS_B description, GetSize B] \<rparr>"

text \<open>\<open>!!a && !!b && a.width === b.width && a.height === b.height\<close>\<close>

definition sizeEquals :: "size_rec option \<Rightarrow> size_rec option \<Rightarrow> bool" where
  "sizeEquals a b =
     (case a of
        None \<Rightarrow> False
      | Some x \<Rightarrow>
          (case b of
             None \<Rightarrow> False
           | Some y \<Rightarrow> width x = width y \<and> height x = height y))"

text \<open>
  \<open>getTime() - started >= 5000\<close>, with the clock as the \<open>k\<close>-th check reads it. An
  undefined \<open>started\<close> makes the difference NaN and the comparison false.
\<close>

definition hasTimedOut :: "env \<Rightarrow> nat \<Rightarrow> state \<Rightarrow> bool" where
  "hasTimedOut e k s =
     (case started s of
        None \<Rightarrow> False
      | Some t \<Rightarrow> tickTime e k - t \<ge> 5000)"

definition finish :: "callback \<Rightarrow> state \<Rightarrow> state" where
  "finish cb s =
     emit (Callback cb (fontFamily s) (fontDescription s))
       (emit (Remove B) (emit (Remove A) s))"

text \<open>\<open>asyncCall(f, d)\<close> hands a closure to the scheduler.\<close>

definition asyncCall :: "nat \<Rightarrow> state \<Rightarrow> state" where
  "asyncCall d s = (emit (AsyncCall d) s)\<lparr>queue := queue s @ [d]\<rparr>"

definition asyncCheck :: "state \<Rightarrow> state" where
  "asyncCheck s = asyncCall 25 s"

definition check :: "env \<Rightarrow> state \<Rightarrow> state" where
  "check e s0 =
     (let k = checks s0;
          sizeA = tickSizeA e k;
          sizeB = tickSizeB e k;
          s = emit (GetSize B) (emit (GetSize A) (s0\<lparr>checks := Suc k\<rparr>))
      in
        if hasWebkitFallbackBug s then
          if webkitFallbackSizeA s \<noteq> None \<and> webkitFallbackSizeB s \<noteq> None then
            if hasTimedOut e k s then
              if sizeEquals sizeA (webkitFallbackSizeA s)
                 \<and> sizeEquals sizeB (webkitFallbackSizeB s)
              then finish Active s
              else finish Inactive s
            else if sizeEquals sizeA (webkitFallbackSizeA s)
                    \<and> sizeEquals sizeB (webkitFallbackSizeB s)
            then asyncCheck s
            else
              if sizeEquals sizeA (originalSizeA s)
                 \<and> sizeEquals sizeB (originalSizeB s)
              then finish Inactive s
              else finish Active s
          else asyncCheck s
        else
          if hasTimedOut e k s then finish Inactive s
          else if sizeEquals sizeA (originalSizeA s)
                  \<and> sizeEquals sizeB (originalSizeB s)
          then asyncCheck s
          else finish Active s)"

definition start :: "env \<Rightarrow> state \<Rightarrow> state" where
  "start e s0 =
     (let s1 = s0\<lparr>started := Some (startTime e)\<rparr>;
          s2 = emit (SetFont A (fontFamily s1 @ '','' @ DEFAULT_FONTS_A)
                       (fontDescription s1)) s1;
          s3 = (if hasWebkitFallbackBug s2
                then (emit (GetSize A) s2)\<lparr>webkitFallbackSizeA := startSizeA e\<rparr>
                else s2);
          s4 = emit (SetFont B (fontFamily s3 @ '','' @ DEFAULT_FONTS_B)
                       (fontDescription s3)) s3;
          s5 = (if hasWebkitFallbackBug s4
                then (emit (GetSize B) s4)\<lparr>webkitFallbackSizeB := startSizeB e\<rparr>
                else s4)
      in check e s5)"

subsection \<open>The scheduler\<close>

text \<open>
  One turn of the event loop runs the oldest waiting closure, if there is one. Every
  closure the runner hands in is \<open>function() { func.call(context); }\<close> with
  \<open>func = check\<close> and \<open>context = this\<close>.
\<close>

definition turn :: "env \<Rightarrow> state \<Rightarrow> state" where
  "turn e s = (case queue s of [] \<Rightarrow> s | d # q \<Rightarrow> check e (s\<lparr>queue := q\<rparr>))"

fun turns :: "nat \<Rightarrow> env \<Rightarrow> state \<Rightarrow> state" where
  "turns 0 e s = s"
| "turns (Suc n) e s = turns n e (turn e s)"

text \<open>
  The event loop runs until nothing waits; a runner that reschedules for ever gives
  \<open>None\<close>.
\<close>

partial_function (option) event_loop :: "env \<Rightarrow> state \<Rightarrow> state option" where
  "event_loop e s =
     (case queue s of
        [] \<Rightarrow> Some s
      | d # q \<Rightarrow> event_loop e (check e (s\<lparr>queue := q\<rparr>)))"

declare event_loop.simps [code]

text \<open>A whole run: construct, \<open>start\<close>, then let the event loop drain.\<close>

definition run ::
  "env \<Rightarrow> string \<Rightarrow> string \<Rightarrow> bool \<Rightarrow> string option \<Rightarrow> state option" where
  "run e family description bug opt =
     event_loop e (start e (FontWatchRunner e family description bug opt))"

text \<open>The callbacks of a trace, in the order of the calls.\<close>

fun is_callback :: "event \<Rightarrow> bool" where
  "is_callback (Callback cb f d) = True"
| "is_callback _ = False"

definition callbacks :: "event list \<Rightarrow> event list" where
  "callbacks t = filter is_callback t"

subsection \<open>Describing a run\<close>

text \<open>
  What one call of \<open>check\<close> decides, as a value: the branch structure of \<open>check\<close>
  with the effects left out. The \<open>k\<close>-th check reads the \<open>k\<close>-th measurements and
  the \<open>k\<close>-th clock value.
\<close>

datatype decision = Wait | Done callback

definition decide :: "env \<Rightarrow> state \<Rightarrow> nat \<Rightarrow> decision" where
  "decide e s k =
     (let sizeA = tickSizeA e k; sizeB = tickSizeB e k in
        if hasWebkitFallbackBug s then
          if webkitFallbackSizeA s \<noteq> None \<and> webkitFallbackSizeB s \<noteq> None then
            if hasTimedOut e k s then
              if sizeEquals sizeA (webkitFallbackSizeA s) \<and> sizeEquals sizeB (webkitFallbackSizeB s)
              then Done Active else Done Inactive
            else if sizeEquals sizeA (webkitFallbackSizeA s) \<and> sizeEquals sizeB (webkitFallbackSizeB s)
            then Wait
            else if sizeEquals sizeA (originalSizeA s) \<and> sizeEquals sizeB (originalSizeB s)
              then Done Inactive else Done Active
          else Wait
        else
          if hasTimedOut e k s then Done Inactive
          else if sizeEquals sizeA (originalSizeA s) \<and> sizeEquals sizeB (originalSizeB s)
          then Wait
          else Done Active)"

text \<open>The state once \<open>check\<close> has taken its two measurements.\<close>

definition measured :: "state \<Rightarrow> state" where
  "measured s = emit (GetSize B) (emit (GetSize A) (s\<lparr>checks := Suc (checks s)\<rparr>))"

text \<open>The state in which \<open>start\<close> calls \<open>check\<close>.\<close>

definition armed :: "env \<Rightarrow> state \<Rightarrow> state" where
  "armed e s0 =
     (let s1 = s0\<lparr>started := Some (startTime e)\<rparr>;
          s2 = emit (SetFont A (fontFamily s1 @ '','' @ DEFAULT_FONTS_A)
                       (fontDescription s1)) s1;
          s3 = (if hasWebkitFallbackBug s2
                then (emit (GetSize A) s2)\<lparr>webkitFallbackSizeA := startSizeA e\<rparr>
                else s2);
          s4 = emit (SetFont B (fontFamily s3 @ '','' @ DEFAULT_FONTS_B)
                       (fontDescription s3)) s3
      in (if hasWebkitFallbackBug s4
          then (emit (GetSize B) s4)\<lparr>webkitFallbackSizeB := startSizeB e\<rparr>
          else s4))"

text \<open>
  The trace of \<open>m\<close> checks that reschedule, and of a check that finishes; the state
  after \<open>m\<close> checks that all reschedule, and the state after \<open>j\<close> such checks and one
  that finishes, both counted from a state \<open>c\<close> with nothing waiting.
\<close>

definition polls :: "nat \<Rightarrow> event list" where
  "polls m = concat (replicate m [GetSize A, GetSize B, AsyncCall 25])"

definition last_check :: "callback \<Rightarrow> state \<Rightarrow> event list" where
  "last_check cb s =
     [GetSize A, GetSize B, Remove A, Remove B,
      Callback cb (fontFamily s) (fontDescription s)]"

definition waiting_after :: "nat \<Rightarrow> state \<Rightarrow> state" where
  "waiting_after m c = c\<lparr>checks := checks c + m, queue := [25], trace := trace c @ polls m\<rparr>"

definition finished_after :: "nat \<Rightarrow> callback \<Rightarrow> state \<Rightarrow> state" where
  "finished_after j cb c =
     c\<lparr>checks := checks c + Suc j, queue := [], trace := trace c @ polls j @ last_check cb c\<rparr>"

text \<open>The calls \<open>start\<close> makes on the rulers before it calls \<open>check\<close>.\<close>

definition start_calls :: "state \<Rightarrow> event list" where
  "start_calls s =
     (if hasWebkitFallbackBug s
      then [SetFont A (fontFamily s @ '','' @ DEFAULT_FONTS_A) (fontDescription s), GetSize A,
            SetFont B (fontFamily s @ '','' @ DEFAULT_FONTS_B) (fontDescription s), GetSize B]
      else [SetFont A (fontFamily s @ '','' @ DEFAULT_FONTS_A) (fontDescription s),
            SetFont B (fontFamily s @ '','' @ DEFAULT_FONTS_B) (fontDescription s)])"

subsection \<open>Concrete environments\<close>

text \<open>
  In each of them the clock starts at 0 and every check comes 25 ms after the one
  before. Where the rulers can be measured, the original sizes are \<open>{10, 5}\<close> and
  \<open>{20, 8}\<close>.
\<close>

definition sz :: "int \<Rightarrow> int \<Rightarrow> size_rec option" where
  "sz w h = Some \<lparr>width = w, height = h\<rparr>"

text \<open>Ruler B changes to \<open>{25, 8}\<close> at the check of index 3.\<close>

definition env_font_arrives :: env where
  "env_font_arrives =
     \<lparr> ctorSizeA = sz 10 5, ctorSizeB = sz 20 8,
       startTime = 0,
       startSizeA = sz 10 5, startSizeB = sz 20 8,
       tickTime = (\<lambda>k. 25 * int k),
       tickSizeA = (\<lambda>k. sz 10 5),
       tickSizeB = (\<lambda>k. if k < 3 then sz 20 8 else sz 25 8) \<rparr>"

text \<open>
  The rulers measure \<open>{12, 5}\<close> and \<open>{22, 8}\<close> right after \<open>start\<close> has set the
  fonts, and go back to their original sizes at the check of index 2.
\<close>

definition env_bug_reverts :: env where
  "env_bug_reverts =
     \<lparr> ctorSizeA = sz 10 5, ctorSizeB = sz 20 8,
       startTime = 0,
       startSizeA = sz 12 5, startSizeB = sz 22 8,
       tickTime = (\<lambda>k. 25 * int k),
       tickSizeA = (\<lambda>k. if k < 2 then sz 12 5 else sz 10 5),
       tickSizeB = (\<lambda>k. if k < 2 then sz 22 8 else sz 20 8) \<rparr>"

text \<open>The rulers keep the sizes they had right after \<open>start\<close> set the fonts.\<close>

definition env_bug_compatible :: env where
  "env_bug_compatible =
     \<lparr> ctorSizeA = sz 10 5, ctorSizeB = sz 20 8,
       startTime = 0,
       startSizeA = sz 12 5, startSizeB = sz 22 8,
       tickTime = (\<lambda>k. 25 * int k),
       tickSizeA = (\<lambda>k. sz 12 5),
       tickSizeB = (\<lambda>k. sz 22 8) \<rparr>"

text \<open>
  The rulers measure \<open>{12, 5}\<close> and \<open>{22, 8}\<close> right after \<open>start\<close> has set the
  fonts, and change to \<open>{14, 5}\<close> and \<open>{25, 8}\<close> at the check of index 2.
\<close>

definition env_bug_font_arrives :: env where
  "env_bug_font_arrives =
     \<lparr> ctorSizeA = sz 10 5, ctorSizeB = sz 20 8,
       startTime = 0,
       startSizeA = sz 12 5, startSizeB = sz 22 8,
       tickTime = (\<lambda>k. 25 * int k),
       tickSizeA = (\<lambda>k. if k < 2 then sz 12 5 else sz 14 5),
       tickSizeB = (\<lambda>k. if k < 2 then sz 22 8 else sz 25 8) \<rparr>"

text \<open>Neither ruler can be measured when \<open>start\<close> sets the fonts.\<close>

definition env_no_snapshot :: env where
  "env_no_snapshot =
     \<lparr> ctorSizeA = sz 10 5, ctorSizeB = sz 20 8,
       startTime = 0,
       startSizeA = None, startSizeB = None,
       tickTime = (\<lambda>k. 25 * int k),
       tickSizeA = (\<lambda>k. sz 12 5),
       tickSizeB = (\<lambda>k. sz 22 8) \<rparr>"

text \<open>Neither ruler can ever be measured.\<close>

definition env_never_measurable :: env where
  "env_never_measurable =
     \<lparr> ctorSizeA = None, ctorSizeB = None,
       startTime = 0,
       startSizeA = None, startSizeB = None,
       tickTime = (\<lambda>k. 25 * int k),
       tickSizeA = (\<lambda>k. None),
       tickSizeB = (\<lambda>k. None) \<rparr>"

text \<open>
  The rulers keep the sizes they had right after \<open>start\<close> set the fonts until the
  check of index 200, at 5000 ms, which measures \<open>{14, 5}\<close> and \<open>{25, 8}\<close>.
\<close>

definition env_bug_late_change :: env where
  "env_bug_late_change =
     \<lparr> ctorSizeA = sz 10 5, ctorSizeB = sz 20 8,
       startTime = 0,
       startSizeA = sz 12 5, startSizeB = sz 22 8,
       tickTime = (\<lambda>k. 25 * int k),
       tickSizeA = (\<lambda>k. if k < 200 then sz 12 5 else sz 14 5),
       tickSizeB = (\<lambda>k. if k < 200 then sz 22 8 else sz 25 8) \<rparr>"

text \<open>
  The font is there from the beginning: every check measures \<open>{14, 5}\<close> and
  \<open>{25, 8}\<close>.
\<close>

definition env_font_cached :: env where
  "env_font_cached =
     \<lparr> ctorSizeA = sz 10 5, ctorSizeB = sz 20 8,
       startTime = 0,
       startSizeA = sz 14 5, startSizeB = sz 25 8,
       tickTime = (\<lambda>k. 25 * int k),
       tickSizeA = (\<lambda>k. sz 14 5),
       tickSizeB = (\<lambda>k. sz 25 8) \<rparr>"

section \<open>Single calls\<close>

lemma sizeEquals_iff: "sizeEquals a b \<longleftrightarrow> a \<noteq> None \<and> a = b"
  by (auto simp: sizeEquals_def split: option.splits)

lemma start_armed: "start e s0 = check e (armed e s0)"
  by (simp add: start_def armed_def Let_def)

lemma polls_Suc: "polls (Suc m) = polls m @ [GetSize A, GetSize B, AsyncCall 25]"
  unfolding polls_def by (induction m) simp_all

lemma polls_0: "polls 0 = []"
  by (simp add: polls_def)

lemma check_decide:
  "check e s =
     (case decide e s (checks s) of
        Wait \<Rightarrow> asyncCheck (measured s)
      | Done cb \<Rightarrow> finish cb (measured s))"
  by (simp add: check_def decide_def measured_def Let_def hasTimedOut_def emit_def)

lemma decide_update [simp]:
  "decide e (s\<lparr>checks := n\<rparr>) k = decide e s k"
  "decide e (s\<lparr>queue := q\<rparr>) k = decide e s k"
  "decide e (s\<lparr>trace := t\<rparr>) k = decide e s k"
  by (simp_all add: decide_def hasTimedOut_def Let_def)

lemma decide_waiting_after [simp]: "decide e (waiting_after m c) k = decide e c k"
  by (simp add: waiting_after_def)

lemma check_wait:
  assumes "decide e c (checks c) = Wait" and "queue c = []"
  shows "check e c = waiting_after 1 c"
  using assms
  by (simp add: check_decide waiting_after_def polls_def measured_def
      emit_def asyncCheck_def asyncCall_def)

lemma check_done:
  assumes "decide e c (checks c) = Done cb" and "queue c = []"
  shows "check e c = finished_after 0 cb c"
  using assms
  by (simp add: check_decide finished_after_def last_check_def polls_def measured_def
      emit_def finish_def)

lemma turn_waiting_wait:
  assumes "decide e c (checks c + m) = Wait"
  shows "turn e (waiting_after m c) = waiting_after (Suc m) c"
  using assms
  by (simp add: turn_def check_decide waiting_after_def polls_Suc measured_def
      emit_def asyncCheck_def asyncCall_def)

lemma turn_waiting_done:
  assumes "decide e c (checks c + m) = Done cb"
  shows "turn e (waiting_after m c) = finished_after m cb c"
  using assms
  by (simp add: turn_def check_decide waiting_after_def finished_after_def last_check_def
      measured_def emit_def finish_def)

lemma turn_finished: "turn e (finished_after j cb c) = finished_after j cb c"
  by (simp add: turn_def finished_after_def)

lemma turns_finished: "turns n e (finished_after j cb c) = finished_after j cb c"
  by (induction n) (simp_all add: turn_finished)

lemma turns_snoc: "turns (Suc n) e s = turn e (turns n e s)"
  by (induction n arbitrary: s) simp_all

lemma turns_add: "turns (m + n) e s = turns n e (turns m e s)"
  by (induction m arbitrary: s) simp_all

section \<open>Runs\<close>

lemma turns_idle: "queue s = [] \<Longrightarrow> turns n e s = s"
  by (induction n) (simp_all add: turn_def)

lemma run_waits:
  assumes "queue c = []" and "\<forall>j\<le>n. decide e c (checks c + j) = Wait"
  shows "turns n e (check e c) = waiting_after (Suc n) c"
  using assms(2)
proof (induction n)
  case 0
  then show ?case using assms(1) by (simp add: check_wait)
next
  case (Suc n)
  then have "turns n e (check e c) = waiting_after (Suc n) c" by simp
  moreover have "decide e c (checks c + Suc n) = Wait" using Suc.prems by blast
  ultimately show ?case
    by (simp only: turns_snoc turn_waiting_wait)
qed

lemma run_reaches_done:
  assumes "queue c = []" and "\<forall>i<j. decide e c (checks c + i) = Wait"
    and "decide e c (checks c + j) = Done cb"
  shows "turns j e (check e c) = finished_after j cb c"
proof (cases j)
  case 0
  then show ?thesis using assms by (simp add: check_done)
next
  case (Suc i)
  with assms(2) have "\<forall>l\<le>i. decide e c (checks c + l) = Wait" by auto
  then have "turns i e (check e c) = waiting_after (Suc i) c"
    using assms(1) by (rule run_waits[rotated])
  then show ?thesis
    using assms(3) Suc by (simp only: turns_snoc turn_waiting_done)
qed

lemma run_done:
  assumes "queue c = []" and "\<forall>i<j. decide e c (checks c + i) = Wait"
    and "decide e c (checks c + j) = Done cb" and "j \<le> n"
  shows "turns n e (check e c) = finished_after j cb c"
proof -
  have "turns n e (check e c) = turns (j + (n - j)) e (check e c)"
    using assms(4) by simp
  also have "\<dots> = turns (n - j) e (turns j e (check e c))"
    by (rule turns_add)
  also have "\<dots> = finished_after j cb c"
    using assms(1-3) by (simp add: run_reaches_done turns_finished)
  finally show ?thesis .
qed

lemma first_done:
  fixes f :: "nat \<Rightarrow> decision"
  assumes "\<not> (\<forall>j\<le>n. f j = Wait)"
  shows "\<exists>j cb. j \<le> n \<and> f j = Done cb \<and> (\<forall>i<j. f i = Wait)"
proof -
  define j where "j = (LEAST j. f j \<noteq> Wait)"
  from assms obtain l where l: "l \<le> n" "f l \<noteq> Wait" by blast
  have "f j \<noteq> Wait"
    unfolding j_def using l(2) by (rule LeastI[of "\<lambda>j. f j \<noteq> Wait"])
  moreover have "j \<le> l"
    unfolding j_def using l(2) by (rule Least_le[of "\<lambda>j. f j \<noteq> Wait"])
  moreover have "\<forall>i<j. f i = Wait"
    unfolding j_def using not_less_Least by blast
  ultimately show ?thesis
    using l(1) by (metis decision.exhaust le_trans)
qed

lemma event_loop_turns:
  "queue (turns n e s) = [] \<Longrightarrow> event_loop e s = Some (turns n e s)"
proof (induction n arbitrary: s)
  case 0
  then show ?case by (simp add: event_loop.simps)
next
  case (Suc n)
  show ?case
  proof (cases "queue s")
    case Nil
    then show ?thesis by (simp add: event_loop.simps turns_idle turn_def)
  next
    case (Cons d q)
    then have "event_loop e s = event_loop e (turn e s)"
      by (subst event_loop.simps) (simp add: turn_def)
    then show ?thesis using Suc by simp
  qed
qed

lemma event_loop_Some:
  assumes "event_loop e s = Some s'"
  shows "\<exists>n. turns n e s = s' \<and> queue s' = []"
proof (rule event_loop.raw_induct[where P = "\<lambda>e s s'. \<exists>n. turns n e s = s' \<and> queue s' = []"])
  show "event_loop e s = Some s'" by (rule assms)
next
  fix loop :: "env \<Rightarrow> state \<Rightarrow> state option" and e s s'
  assume IH: "\<And>e s s'. loop e s = Some s' \<Longrightarrow> \<exists>n. turns n e s = s' \<and> queue s' = []"
    and step: "(case queue s of [] \<Rightarrow> Some s
                | d # q \<Rightarrow> loop e (check e (s\<lparr>queue := q\<rparr>))) = Some s'"
  show "\<exists>n. turns n e s = s' \<and> queue s' = []"
  proof (cases "queue s")
    case Nil
    with step have "turns 0 e s = s' \<and> queue s' = []" by simp
    then show ?thesis by blast
  next
    case (Cons d q)
    with step have "loop e (check e (s\<lparr>queue := q\<rparr>)) = Some s'" by simp
    from IH[OF this] obtain n
      where "turns n e (check e (s\<lparr>queue := q\<rparr>)) = s'" "queue s' = []"
      by blast
    then have "turns (Suc n) e s = s' \<and> queue s' = []"
      using Cons by (simp add: turn_def)
    then show ?thesis by blast
  qed
qed

lemma event_loop_None:
  assumes "\<And>n. queue (turns n e s) \<noteq> []"
  shows "event_loop e s = None"
proof (cases "event_loop e s")
  case None
  then show ?thesis .
next
  case (Some s')
  then obtain n where "turns n e s = s'" "queue s' = []"
    using event_loop_Some by blast
  with assms[of n] show ?thesis by simp
qed

lemma armed_fields [simp]:
  "fontFamily (armed e s) = fontFamily s"
  "fontDescription (armed e s) = fontDescription s"
  "fontTestString (armed e s) = fontTestString s"
  "hasWebkitFallbackBug (armed e s) = hasWebkitFallbackBug s"
  "webkitFallbackSizeA (armed e s) =
     (if hasWebkitFallbackBug s then startSizeA e else webkitFallbackSizeA s)"
  "webkitFallbackSizeB (armed e s) =
     (if hasWebkitFallbackBug s then startSizeB e else webkitFallbackSizeB s)"
  "originalSizeA (armed e s) = originalSizeA s"
  "originalSizeB (armed e s) = originalSizeB s"
  "started (armed e s) = Some (startTime e)"
  "checks (armed e s) = checks s"
  "queue (armed e s) = queue s"
  "trace (armed e s) = trace s @ start_calls s"
  by (simp_all add: armed_def start_calls_def emit_def Let_def)

lemma runner_fields [simp]:
  "fontFamily (FontWatchRunner e f d bug opt) = f"
  "fontDescription (FontWatchRunner e f d bug opt) = d"
  "hasWebkitFallbackBug (FontWatchRunner e f d bug opt) = bug"
  "webkitFallbackSizeA (FontWatchRunner e f d bug opt) = None"
  "webkitFallbackSizeB (FontWatchRunner e f d bug opt) = None"
  "originalSizeA (FontWatchRunner e f d bug opt) = ctorSizeA e"
  "originalSizeB (FontWatchRunner e f d bug opt) = ctorSizeB e"
  "started (FontWatchRunner e f d bug opt) = None"
  "checks (FontWatchRunner e f d bug opt) = 0"
  "queue (FontWatchRunner e f d bug opt) = []"
  "trace (FontWatchRunner e f d bug opt) =
     [Insert A, SetFont A DEFAULT_FONTS_A d, GetSize A,
      Insert B, SetFont B DEFAULT_FONTS_B d, GetSize B]"
  by (simp_all add: FontWatchRunner_def)

lemma callbacks_append [simp]: "callbacks (xs @ ys) = callbacks xs @ callbacks ys"
  by (simp add: callbacks_def)

lemma callbacks_simps [simp]:
  "callbacks [] = []"
  "callbacks (x # xs) = (if is_callback x then x # callbacks xs else callbacks xs)"
  by (simp_all add: callbacks_def)

lemma callbacks_polls [simp]: "callbacks (polls m) = []"
  by (induction m) (simp_all add: polls_0 polls_Suc)

lemma callbacks_last_check [simp]:
  "callbacks (last_check cb s) = [Callback cb (fontFamily s) (fontDescription s)]"
  by (simp add: last_check_def)

lemma callbacks_start_calls [simp]: "callbacks (start_calls s) = []"
  by (simp add: start_calls_def)

lemma removals_polls [simp]: "count_list (polls m) (Remove r) = 0"
  by (induction m) (simp_all add: polls_0 polls_Suc)

lemma removals_start_calls [simp]: "count_list (start_calls s) (Remove r) = 0"
  by (simp add: start_calls_def)

lemma run_cases_decided:
  assumes "queue c = []"
  shows "(\<forall>j\<le>n. decide e c (checks c + j) = Wait)
           \<and> turns n e (check e c) = waiting_after (Suc n) c
       \<or> (\<exists>j cb. j \<le> n \<and> (\<forall>i<j. decide e c (checks c + i) = Wait)
             \<and> decide e c (checks c + j) = Done cb
             \<and> turns n e (check e c) = finished_after j cb c)"
proof (cases "\<forall>j\<le>n. decide e c (checks c + j) = Wait")
  case True
  then show ?thesis using assms by (simp add: run_waits)
next
  case False
  then obtain j cb where "j \<le> n" "decide e c (checks c + j) = Done cb"
    "\<forall>i<j. decide e c (checks c + i) = Wait"
    using first_done[of n "\<lambda>j. decide e c (checks c + j)"] by blast
  then show ?thesis using assms run_done by blast
qed

lemma decide_timed_out:
  assumes "started c = Some t" and "5000 \<le> tickTime e k - t"
    and "hasWebkitFallbackBug c \<longrightarrow>
           webkitFallbackSizeA c \<noteq> None \<and> webkitFallbackSizeB c \<noteq> None"
  shows "decide e c k \<noteq> Wait"
  using assms by (simp add: decide_def Let_def hasTimedOut_def)

lemma decide_no_snapshot:
  assumes "hasWebkitFallbackBug c"
    and "webkitFallbackSizeA c = None \<or> webkitFallbackSizeB c = None"
  shows "decide e c k = Wait"
  using assms by (auto simp add: decide_def Let_def)

lemma trace_finished_after [simp]:
  "trace (finished_after j cb c) = trace c @ polls j @ last_check cb c"
  "queue (finished_after j cb c) = []"
  "checks (finished_after j cb c) = checks c + Suc j"
  by (simp_all add: finished_after_def)

lemma trace_waiting_after [simp]:
  "trace (waiting_after m c) = trace c @ polls m"
  "queue (waiting_after m c) = [25]"
  "checks (waiting_after m c) = checks c + m"
  by (simp_all add: waiting_after_def)

lemma last_last_check [simp]:
  "last (xs @ last_check cb s) = Callback cb (fontFamily s) (fontDescription s)"
  by (simp add: last_check_def)

lemma start_cases_decided:
  fixes e f d bug opt
  defines "c \<equiv> armed e (FontWatchRunner e f d bug opt)"
  shows "(\<forall>j\<le>n. decide e c j = Wait)
           \<and> turns n e (start e (FontWatchRunner e f d bug opt)) = waiting_after (Suc n) c
       \<or> (\<exists>j cb. j \<le> n \<and> (\<forall>i<j. decide e c i = Wait) \<and> decide e c j = Done cb
             \<and> turns n e (start e (FontWatchRunner e f d bug opt)) = finished_after j cb c)"
proof -
  have "queue c = []" "checks c = 0" by (simp_all add: c_def)
  then show ?thesis
    using run_cases_decided[of c n e] by (simp add: c_def start_armed)
qed

lemma asyncCalls_polls: "AsyncCall dl \<in> set (polls m) \<Longrightarrow> dl = 25"
  by (induction m) (auto simp add: polls_0 polls_Suc)

lemma asyncCalls_start_calls [simp]: "AsyncCall dl \<notin> set (start_calls s)"
  by (simp add: start_calls_def)

lemma check_either:
  "check e s = asyncCheck (measured s) \<or> (\<exists>cb. check e s = finish cb (measured s))"
  by (cases "decide e s (checks s)") (auto simp add: check_decide)

lemma method_queues:
  "queue (measured s) = queue s"
  "queue (finish cb s) = queue s"
  "queue (asyncCheck s) = queue s @ [25]"
  by (simp_all add: measured_def finish_def asyncCheck_def asyncCall_def emit_def)

lemma method_traces:
  "trace (measured s) = trace s @ [GetSize A, GetSize B]"
  "trace (finish cb s) =
     trace s @ [Remove A, Remove B, Callback cb (fontFamily s) (fontDescription s)]"
  "trace (asyncCheck s) = trace s @ [AsyncCall 25]"
  by (simp_all add: measured_def finish_def asyncCheck_def asyncCall_def emit_def)

lemma checks_check: "checks (check e s) = Suc (checks s)"
  by (cases "decide e s (checks s)")
    (simp_all add: check_decide measured_def finish_def asyncCheck_def asyncCall_def emit_def)

lemma sizeEquals_present: "sizeEquals a b \<longleftrightarrow> a = b \<and> b \<noteq> None"
  using sizeEquals_iff[of a b] by auto

text \<open>
  What a check decides when both fallback sizes were recorded, in terms of what the
  environment answers.
\<close>

lemma decide_with_snapshots:
  assumes "hasWebkitFallbackBug c" and "started c = Some t"
    and "webkitFallbackSizeA c \<noteq> None" and "webkitFallbackSizeB c \<noteq> None"
  shows "decide e c k =
     (if 5000 \<le> tickTime e k - t then
        (if tickSizeA e k = webkitFallbackSizeA c \<and> tickSizeB e k = webkitFallbackSizeB c
         then Done Active else Done Inactive)
      else if tickSizeA e k = webkitFallbackSizeA c \<and> tickSizeB e k = webkitFallbackSizeB c
      then Wait
      else if (tickSizeA e k = originalSizeA c \<and> originalSizeA c \<noteq> None)
            \<and> (tickSizeB e k = originalSizeB c \<and> originalSizeB c \<noteq> None)
      then Done Inactive
      else Done Active)"
proof -
  have fallback:
    "(sizeEquals (tickSizeA e k) (webkitFallbackSizeA c)
        \<and> sizeEquals (tickSizeB e k) (webkitFallbackSizeB c))
     = (tickSizeA e k = webkitFallbackSizeA c \<and> tickSizeB e k = webkitFallbackSizeB c)"
    using assms(3,4) by (simp add: sizeEquals_present)
  have original:
    "(sizeEquals (tickSizeA e k) (originalSizeA c)
        \<and> sizeEquals (tickSizeB e k) (originalSizeB c))
     = ((tickSizeA e k = originalSizeA c \<and> originalSizeA c \<noteq> None)
        \<and> (tickSizeB e k = originalSizeB c \<and> originalSizeB c \<noteq> None))"
    by (simp add: sizeEquals_present)
  have timeout: "hasTimedOut e k c = (5000 \<le> tickTime e k - t)"
    using assms(2) by (simp add: hasTimedOut_def)
  have guard: "(webkitFallbackSizeA c \<noteq> None \<and> webkitFallbackSizeB c \<noteq> None) = True"
    using assms(3,4) by simp
  show ?thesis
    unfolding decide_def Let_def fallback original timeout guard
    using assms(1) by (simp only: if_True)
qed

text \<open>
  A run without bug compensation, or one in which \<open>start\<close> recorded both fallback
  sizes, ends as soon as some check reads a clock 5000 ms or more past \<open>started\<close>, if
  not before: exactly one callback is called, once, it is the last call the runner
  makes, and further turns of the scheduler change nothing.
\<close>

lemma run_ends_with_one_callback:
  fixes e f d bug opt
  defines "s0 \<equiv> FontWatchRunner e f d bug opt"
  assumes "bug \<longrightarrow> startSizeA e \<noteq> None \<and> startSizeB e \<noteq> None"
    and "5000 \<le> tickTime e k - startTime e"
  shows "\<exists>s cb. run e f d bug opt = Some s
           \<and> callbacks (trace s) = [Callback cb f d]
           \<and> last (trace s) = Callback cb f d
           \<and> queue s = []
           \<and> (\<forall>n. turns n e s = s \<and> length (callbacks (trace (turns n e (start e s0)))) \<le> 1)"
proof -
  define c where "c = armed e s0"
  have "decide e c k \<noteq> Wait"
    using assms(2,3) by (intro decide_timed_out[where t = "startTime e"]) (simp_all add: c_def s0_def)
  then obtain j cb where fin: "turns k e (start e s0) = finished_after j cb c"
    using start_cases_decided[of k e f d bug opt] unfolding c_def s0_def by auto
  then have "queue (turns k e (start e s0)) = []" by simp
  then have "run e f d bug opt = Some (finished_after j cb c)"
    unfolding run_def s0_def[symmetric] using fin event_loop_turns by metis
  moreover have "callbacks (trace (finished_after j cb c)) = [Callback cb f d]"
    by (simp add: c_def s0_def)
  moreover have "last (trace (finished_after j cb c)) = Callback cb f d"
    using last_last_check[of "trace c @ polls j" cb c] by (simp add: c_def s0_def)
  moreover have "length (callbacks (trace (turns n e (start e s0)))) \<le> 1" for n
    using start_cases_decided[of n e f d bug opt] unfolding s0_def
    by auto
  ultimately show ?thesis
    by (intro exI[of _ "finished_after j cb c"] exI[of _ cb]) (simp add: turns_finished)
qed

lemma run_ends_with_one_callback_example:
  "\<exists>s cb. run env_font_arrives ''Foo'' ''n4'' False None = Some s
     \<and> callbacks (trace s) = [Callback cb ''Foo'' ''n4'']
     \<and> last (trace s) = Callback cb ''Foo'' ''n4''
     \<and> queue s = []
     \<and> (\<forall>n. turns n env_font_arrives s = s
           \<and> length (callbacks (trace (turns n env_font_arrives
                (start env_font_arrives
                   (FontWatchRunner env_font_arrives ''Foo'' ''n4'' False None))))) \<le> 1)"
  using run_ends_with_one_callback [of False env_font_arrives 200 "''Foo''" "''n4''" None]
  by (simp add: env_font_arrives_def)

section \<open>Claims\<close>

subsection \<open>C6: the equality of measurements\<close>

text \<open>
  C6. \<open>sizeEquals a b\<close> holds exactly when both measurements are present, their
  widths are equal and their heights are equal. It is false as soon as one of them is
  absent, also when both are.
\<close>

theorem sizeEquals_present_and_equal:
  "(sizeEquals a b \<longleftrightarrow>
      (\<exists>x y. a = Some x \<and> b = Some y \<and> width x = width y \<and> height x = height y))
   \<and> \<not> sizeEquals None b \<and> \<not> sizeEquals a None \<and> \<not> sizeEquals None None"
  by (cases a; cases b) (simp_all add: sizeEquals_def)

text \<open>Equal sizes, a different height, a different width, and the absent cases.\<close>

theorem sizeEquals_present_and_equal_witness:
  "sizeEquals (sz 10 5) (sz 10 5) \<and> \<not> sizeEquals (sz 10 5) (sz 10 8)
   \<and> \<not> sizeEquals (sz 10 5) (sz 20 5) \<and> \<not> sizeEquals None (sz 10 5)
   \<and> \<not> sizeEquals (sz 10 5) None \<and> \<not> sizeEquals None None"
  using sizeEquals_present_and_equal [of "sz 10 5" "sz 10 5"]
    sizeEquals_present_and_equal [of "sz 10 5" "sz 10 8"]
    sizeEquals_present_and_equal [of "sz 10 5" "sz 20 5"]
    sizeEquals_present_and_equal [of "None" "sz 10 5"]
    sizeEquals_present_and_equal [of "sz 10 5" "None"]
  by (simp add: sz_def)

subsection \<open>C2: one check without the fallback bug\<close>



subsection \<open>C3: with the fallback bug, at the timeout\<close>

text \<open>
  C3. With bug compensation, both fallback sizes recorded and 5000 ms or more elapsed
  since \<open>started\<close>, a check finishes with the active callback when both measurements
  equal the fallback sizes, and with the inactive callback otherwise: it measures both
  rulers, removes both, calls that callback with the family and the description, and
  leaves the scheduler as it is. In a run with bug compensation in which \<open>start\<close>
  recorded both fallback sizes, if the checks of index below \<open>j\<close> all come before the
  timeout and measure the fallback sizes, and the check of index \<open>j\<close> comes at or after
  the timeout, then after \<open>j\<close> turns the run is finished, after exactly \<open>j\<close> checks that
  rescheduled: with the active callback if check \<open>j\<close> still measures the fallback
  sizes, with the inactive callback if it does not.
\<close>

theorem check_with_bug_timed_out:
  assumes "hasWebkitFallbackBug s"
    and "webkitFallbackSizeA s \<noteq> None" and "webkitFallbackSizeB s \<noteq> None"
    and "started s = Some t" and "5000 \<le> tickTime e (checks s) - t"
  shows "(tickSizeA e (checks s) = webkitFallbackSizeA s
            \<and> tickSizeB e (checks s) = webkitFallbackSizeB s
          \<longrightarrow> check e s = finish Active (measured s)
            \<and> trace (check e s) =
                 trace s @ [GetSize A, GetSize B, Remove A, Remove B,
                            Callback Active (fontFamily s) (fontDescription s)]
            \<and> queue (check e s) = queue s)
       \<and> (\<not> (tickSizeA e (checks s) = webkitFallbackSizeA s
               \<and> tickSizeB e (checks s) = webkitFallbackSizeB s)
          \<longrightarrow> check e s = finish Inactive (measured s)
            \<and> trace (check e s) =
                 trace s @ [GetSize A, GetSize B, Remove A, Remove B,
                            Callback Inactive (fontFamily s) (fontDescription s)]
            \<and> queue (check e s) = queue s)
       \<and> ((\<forall>i<j. tickTime e' i - startTime e' < 5000
                 \<and> tickSizeA e' i = startSizeA e' \<and> tickSizeB e' i = startSizeB e')
            \<and> startSizeA e' \<noteq> None \<and> startSizeB e' \<noteq> None
            \<and> 5000 \<le> tickTime e' j - startTime e'
          \<longrightarrow> turns j e' (start e' (FontWatchRunner e' f d True opt))
              = finished_after j
                  (if tickSizeA e' j = startSizeA e' \<and> tickSizeB e' j = startSizeB e'
                   then Active else Inactive)
                  (armed e' (FontWatchRunner e' f d True opt)))"
proof -
  have dec: "decide e s (checks s) =
      (if tickSizeA e (checks s) = webkitFallbackSizeA s
          \<and> tickSizeB e (checks s) = webkitFallbackSizeB s
       then Done Active else Done Inactive)"
    using assms by (simp add: decide_with_snapshots[where t = t])
  have effects: "check e s = finish cb (measured s)
      \<and> trace (check e s) =
           trace s @ [GetSize A, GetSize B, Remove A, Remove B,
                      Callback cb (fontFamily s) (fontDescription s)]
      \<and> queue (check e s) = queue s"
    if "decide e s (checks s) = Done cb" for cb
    using that
    by (simp add: check_decide method_traces method_queues)
      (simp add: measured_def emit_def)
  have one: "tickSizeA e (checks s) = webkitFallbackSizeA s
            \<and> tickSizeB e (checks s) = webkitFallbackSizeB s
          \<longrightarrow> check e s = finish Active (measured s)
            \<and> trace (check e s) =
                 trace s @ [GetSize A, GetSize B, Remove A, Remove B,
                            Callback Active (fontFamily s) (fontDescription s)]
            \<and> queue (check e s) = queue s"
  proof
    assume "tickSizeA e (checks s) = webkitFallbackSizeA s
            \<and> tickSizeB e (checks s) = webkitFallbackSizeB s"
    then have "decide e s (checks s) = Done Active" using dec by simp
    then show "check e s = finish Active (measured s)
            \<and> trace (check e s) =
                 trace s @ [GetSize A, GetSize B, Remove A, Remove B,
                            Callback Active (fontFamily s) (fontDescription s)]
            \<and> queue (check e s) = queue s"
      by (rule effects)
  qed
  have two: "\<not> (tickSizeA e (checks s) = webkitFallbackSizeA s
               \<and> tickSizeB e (checks s) = webkitFallbackSizeB s)
          \<longrightarrow> check e s = finish Inactive (measured s)
            \<and> trace (check e s) =
                 trace s @ [GetSize A, GetSize B, Remove A, Remove B,
                            Callback Inactive (fontFamily s) (fontDescription s)]
            \<and> queue (check e s) = queue s"
  proof
    assume "\<not> (tickSizeA e (checks s) = webkitFallbackSizeA s
               \<and> tickSizeB e (checks s) = webkitFallbackSizeB s)"
    then have "decide e s (checks s) = Done Inactive" using dec by simp
    then show "check e s = finish Inactive (measured s)
            \<and> trace (check e s) =
                 trace s @ [GetSize A, GetSize B, Remove A, Remove B,
                            Callback Inactive (fontFamily s) (fontDescription s)]
            \<and> queue (check e s) = queue s"
      by (rule effects)
  qed
  have three: "(\<forall>i<j. tickTime e' i - startTime e' < 5000
                 \<and> tickSizeA e' i = startSizeA e' \<and> tickSizeB e' i = startSizeB e')
            \<and> startSizeA e' \<noteq> None \<and> startSizeB e' \<noteq> None
            \<and> 5000 \<le> tickTime e' j - startTime e'
          \<longrightarrow> turns j e' (start e' (FontWatchRunner e' f d True opt))
              = finished_after j
                  (if tickSizeA e' j = startSizeA e' \<and> tickSizeB e' j = startSizeB e'
                   then Active else Inactive)
                  (armed e' (FontWatchRunner e' f d True opt))"
  proof
    define c where "c = armed e' (FontWatchRunner e' f d True opt)"
    define cb where "cb = (if tickSizeA e' j = startSizeA e' \<and> tickSizeB e' j = startSizeB e'
                   then Active else Inactive)"
    assume h: "(\<forall>i<j. tickTime e' i - startTime e' < 5000
                 \<and> tickSizeA e' i = startSizeA e' \<and> tickSizeB e' i = startSizeB e')
            \<and> startSizeA e' \<noteq> None \<and> startSizeB e' \<noteq> None
            \<and> 5000 \<le> tickTime e' j - startTime e'"
    have c0: "checks c = 0" "queue c = []"
      by (simp_all add: c_def)
    have d: "decide e' c k =
       (if 5000 \<le> tickTime e' k - startTime e' then
          (if tickSizeA e' k = webkitFallbackSizeA c \<and> tickSizeB e' k = webkitFallbackSizeB c
           then Done Active else Done Inactive)
        else if tickSizeA e' k = webkitFallbackSizeA c \<and> tickSizeB e' k = webkitFallbackSizeB c
        then Wait
        else if (tickSizeA e' k = originalSizeA c \<and> originalSizeA c \<noteq> None)
              \<and> (tickSizeB e' k = originalSizeB c \<and> originalSizeB c \<noteq> None)
        then Done Inactive
        else Done Active)" for k
      using h by (intro decide_with_snapshots) (simp_all add: c_def)
    have fb: "webkitFallbackSizeA c = startSizeA e'" "webkitFallbackSizeB c = startSizeB e'"
      by (simp_all add: c_def)
    have "\<forall>i<j. decide e' c (checks c + i) = Wait"
      using h by (auto simp add: d c0 fb)
    moreover have "decide e' c (checks c + j) = Done cb"
      using h by (simp add: d c0 fb cb_def)
    ultimately have "turns j e' (check e' c) = finished_after j cb c"
      using c0(2) run_reaches_done by blast
    then show "turns j e' (start e' (FontWatchRunner e' f d True opt))
              = finished_after j
                  (if tickSizeA e' j = startSizeA e' \<and> tickSizeB e' j = startSizeB e'
                   then Active else Inactive)
                  (armed e' (FontWatchRunner e' f d True opt))"
      by (simp add: start_armed c_def cb_def)
  qed
  show ?thesis
    using one two three by (intro conjI) assumption+
qed

text \<open>
  Two runs of 200 rescheduled checks, up to 5000 ms. In the first the sizes never
  leave those recorded by \<open>start\<close>: active. In the second they change at the check of
  index 200 itself: inactive.
\<close>

theorem check_with_bug_timed_out_witness:
  "turns 200 env_bug_compatible
     (start env_bug_compatible (FontWatchRunner env_bug_compatible ''Foo'' ''n4'' True None))
   = finished_after 200 Active
       (armed env_bug_compatible (FontWatchRunner env_bug_compatible ''Foo'' ''n4'' True None))
   \<and> turns 200 env_bug_late_change
     (start env_bug_late_change (FontWatchRunner env_bug_late_change ''Foo'' ''n4'' True None))
   = finished_after 200 Inactive
       (armed env_bug_late_change
          (FontWatchRunner env_bug_late_change ''Foo'' ''n4'' True None))"
proof -
  let ?c = "armed env_bug_compatible (FontWatchRunner env_bug_compatible ''Foo'' ''n4'' True None)"
  let ?l = "armed env_bug_late_change
              (FontWatchRunner env_bug_late_change ''Foo'' ''n4'' True None)"
  have a: "hasWebkitFallbackBug (waiting_after 200 ?c)"
    "webkitFallbackSizeA (waiting_after 200 ?c) \<noteq> None"
    "webkitFallbackSizeB (waiting_after 200 ?c) \<noteq> None"
    "started (waiting_after 200 ?c) = Some 0"
    "5000 \<le> tickTime env_bug_compatible (checks (waiting_after 200 ?c)) - 0"
    by (simp_all add: waiting_after_def env_bug_compatible_def sz_def)
  have b: "hasWebkitFallbackBug (waiting_after 200 ?l)"
    "webkitFallbackSizeA (waiting_after 200 ?l) \<noteq> None"
    "webkitFallbackSizeB (waiting_after 200 ?l) \<noteq> None"
    "started (waiting_after 200 ?l) = Some 0"
    "5000 \<le> tickTime env_bug_late_change (checks (waiting_after 200 ?l)) - 0"
    by (simp_all add: waiting_after_def env_bug_late_change_def sz_def)
  show ?thesis
    using check_with_bug_timed_out
      [OF a, where e' = env_bug_compatible and j = 200 and f = "''Foo''" and d = "''n4''"
         and opt = None, THEN conjunct2, THEN conjunct2]
      check_with_bug_timed_out
      [OF b, where e' = env_bug_late_change and j = 200 and f = "''Foo''" and d = "''n4''"
         and opt = None, THEN conjunct2, THEN conjunct2]
    by (simp add: env_bug_compatible_def env_bug_late_change_def sz_def)
qed

subsection \<open>C4: with the fallback bug, before the timeout\<close>

text \<open>
  C4. With bug compensation, both fallback sizes recorded and less than 5000 ms
  elapsed, a check whose measurements both equal the fallback sizes measures the
  rulers and asks the scheduler for one more check after 25 ms, and does nothing else.
  Otherwise it finishes: it measures both rulers, removes both and calls a callback,
  the inactive one exactly when both measurements are present and equal to the
  original sizes, the active one in every other case. In a run with bug compensation
  in which \<open>start\<close> recorded both fallback sizes, if the checks of index below \<open>j\<close>
  all come before the timeout and measure the fallback sizes, and the check of index
  \<open>j\<close> comes before the timeout too, then after \<open>j\<close> turns the run either waits for
  the next check (check \<open>j\<close> measured the fallback sizes) or is finished with the
  callback just described.
\<close>

theorem check_with_bug_before_timeout:
  assumes "hasWebkitFallbackBug s"
    and "webkitFallbackSizeA s \<noteq> None" and "webkitFallbackSizeB s \<noteq> None"
    and "started s = Some t" and "tickTime e (checks s) - t < 5000"
  shows "(tickSizeA e (checks s) = webkitFallbackSizeA s
            \<and> tickSizeB e (checks s) = webkitFallbackSizeB s
          \<longrightarrow> check e s = asyncCall 25 (measured s)
            \<and> trace (check e s) = trace s @ [GetSize A, GetSize B, AsyncCall 25]
            \<and> queue (check e s) = queue s @ [25])
       \<and> (\<not> (tickSizeA e (checks s) = webkitFallbackSizeA s
               \<and> tickSizeB e (checks s) = webkitFallbackSizeB s)
          \<longrightarrow> check e s =
                finish (if (tickSizeA e (checks s) = originalSizeA s \<and> originalSizeA s \<noteq> None)
                         \<and> (tickSizeB e (checks s) = originalSizeB s \<and> originalSizeB s \<noteq> None)
                        then Inactive else Active) (measured s)
            \<and> trace (check e s) =
                 trace s @ [GetSize A, GetSize B, Remove A, Remove B,
                            Callback
                              (if (tickSizeA e (checks s) = originalSizeA s
                                     \<and> originalSizeA s \<noteq> None)
                                \<and> (tickSizeB e (checks s) = originalSizeB s
                                     \<and> originalSizeB s \<noteq> None)
                               then Inactive else Active)
                              (fontFamily s) (fontDescription s)]
            \<and> queue (check e s) = queue s)
       \<and> ((\<forall>i<j. tickTime e' i - startTime e' < 5000
                 \<and> tickSizeA e' i = startSizeA e' \<and> tickSizeB e' i = startSizeB e')
            \<and> startSizeA e' \<noteq> None \<and> startSizeB e' \<noteq> None
            \<and> tickTime e' j - startTime e' < 5000
          \<longrightarrow> turns j e' (start e' (FontWatchRunner e' f d True opt))
              = (if tickSizeA e' j = startSizeA e' \<and> tickSizeB e' j = startSizeB e'
                 then waiting_after (Suc j) (armed e' (FontWatchRunner e' f d True opt))
                 else finished_after j
                   (if (tickSizeA e' j = ctorSizeA e' \<and> ctorSizeA e' \<noteq> None)
                      \<and> (tickSizeB e' j = ctorSizeB e' \<and> ctorSizeB e' \<noteq> None)
                    then Inactive else Active)
                   (armed e' (FontWatchRunner e' f d True opt))))"
proof -
  define same where "same \<longleftrightarrow> tickSizeA e (checks s) = webkitFallbackSizeA s
            \<and> tickSizeB e (checks s) = webkitFallbackSizeB s"
  define orig where "orig \<longleftrightarrow>
      (tickSizeA e (checks s) = originalSizeA s \<and> originalSizeA s \<noteq> None)
      \<and> (tickSizeB e (checks s) = originalSizeB s \<and> originalSizeB s \<noteq> None)"
  have raw: "decide e s (checks s) =
      (if 5000 \<le> tickTime e (checks s) - t then
         (if same then Done Active else Done Inactive)
       else if same then Wait
       else if orig then Done Inactive
       else Done Active)"
    unfolding same_def orig_def by (rule decide_with_snapshots[OF assms(1,4,2,3)])
  have dec: "decide e s (checks s) =
      (if same then Wait else Done (if orig then Inactive else Active))"
    using assms(5) by (simp add: raw)
  have waits: "check e s = asyncCall 25 (measured s)
      \<and> trace (check e s) = trace s @ [GetSize A, GetSize B, AsyncCall 25]
      \<and> queue (check e s) = queue s @ [25]"
    if "decide e s (checks s) = Wait"
    using that
    by (simp add: check_decide method_traces method_queues)
      (simp add: asyncCheck_def)
  have finishes: "check e s = finish cb (measured s)
      \<and> trace (check e s) =
           trace s @ [GetSize A, GetSize B, Remove A, Remove B,
                      Callback cb (fontFamily s) (fontDescription s)]
      \<and> queue (check e s) = queue s"
    if "decide e s (checks s) = Done cb" for cb
    using that
    by (simp add: check_decide method_traces method_queues)
      (simp add: measured_def emit_def)
  have one: "same
          \<longrightarrow> check e s = asyncCall 25 (measured s)
            \<and> trace (check e s) = trace s @ [GetSize A, GetSize B, AsyncCall 25]
            \<and> queue (check e s) = queue s @ [25]"
  proof
    assume same
    then have "decide e s (checks s) = Wait"
      using dec by simp
    then show "check e s = asyncCall 25 (measured s)
            \<and> trace (check e s) = trace s @ [GetSize A, GetSize B, AsyncCall 25]
            \<and> queue (check e s) = queue s @ [25]"
      by (rule waits)
  qed
  have two: "\<not> same
          \<longrightarrow> check e s = finish (if orig then Inactive else Active) (measured s)
            \<and> trace (check e s) =
                 trace s @ [GetSize A, GetSize B, Remove A, Remove B,
                            Callback (if orig then Inactive else Active)
                              (fontFamily s) (fontDescription s)]
            \<and> queue (check e s) = queue s"
  proof
    assume "\<not> same"
    then have "decide e s (checks s) = Done (if orig then Inactive else Active)"
      using dec by simp
    then show "check e s = finish (if orig then Inactive else Active) (measured s)
            \<and> trace (check e s) =
                 trace s @ [GetSize A, GetSize B, Remove A, Remove B,
                            Callback (if orig then Inactive else Active)
                              (fontFamily s) (fontDescription s)]
            \<and> queue (check e s) = queue s"
      by (rule finishes)
  qed
  let ?c = "armed e' (FontWatchRunner e' f d True opt)"
  let ?same' = "tickSizeA e' j = startSizeA e' \<and> tickSizeB e' j = startSizeB e'"
  let ?cb' = "if (tickSizeA e' j = ctorSizeA e' \<and> ctorSizeA e' \<noteq> None)
                \<and> (tickSizeB e' j = ctorSizeB e' \<and> ctorSizeB e' \<noteq> None)
              then Inactive else Active"
  have three: "(\<forall>i<j. tickTime e' i - startTime e' < 5000
                 \<and> tickSizeA e' i = startSizeA e' \<and> tickSizeB e' i = startSizeB e')
            \<and> startSizeA e' \<noteq> None \<and> startSizeB e' \<noteq> None
            \<and> tickTime e' j - startTime e' < 5000
          \<longrightarrow> turns j e' (start e' (FontWatchRunner e' f d True opt))
              = (if ?same' then waiting_after (Suc j) ?c else finished_after j ?cb' ?c)"
  proof
    define c where "c = armed e' (FontWatchRunner e' f d True opt)"
    assume h: "(\<forall>i<j. tickTime e' i - startTime e' < 5000
                 \<and> tickSizeA e' i = startSizeA e' \<and> tickSizeB e' i = startSizeB e')
            \<and> startSizeA e' \<noteq> None \<and> startSizeB e' \<noteq> None
            \<and> tickTime e' j - startTime e' < 5000"
    have c0: "checks c = 0" "queue c = []"
      by (simp_all add: c_def)
    have fields: "webkitFallbackSizeA c = startSizeA e'" "webkitFallbackSizeB c = startSizeB e'"
      "originalSizeA c = ctorSizeA e'" "originalSizeB c = ctorSizeB e'"
      by (simp_all add: c_def)
    have d: "decide e' c k =
       (if 5000 \<le> tickTime e' k - startTime e' then
          (if tickSizeA e' k = webkitFallbackSizeA c \<and> tickSizeB e' k = webkitFallbackSizeB c
           then Done Active else Done Inactive)
        else if tickSizeA e' k = webkitFallbackSizeA c \<and> tickSizeB e' k = webkitFallbackSizeB c
        then Wait
        else if (tickSizeA e' k = originalSizeA c \<and> originalSizeA c \<noteq> None)
              \<and> (tickSizeB e' k = originalSizeB c \<and> originalSizeB c \<noteq> None)
        then Done Inactive
        else Done Active)" for k
      using h by (intro decide_with_snapshots) (simp_all add: c_def)
    have before: "\<forall>i<j. decide e' c (checks c + i) = Wait"
      using h by (auto simp add: d c0 fields)
    define same' where
      "same' \<longleftrightarrow> tickSizeA e' j = startSizeA e' \<and> tickSizeB e' j = startSizeB e'"
    define cb' where
      "cb' = (if (tickSizeA e' j = ctorSizeA e' \<and> ctorSizeA e' \<noteq> None)
                \<and> (tickSizeB e' j = ctorSizeB e' \<and> ctorSizeB e' \<noteq> None)
              then Inactive else Active)"
    have "turns j e' (check e' c) =
        (if same' then waiting_after (Suc j) c else finished_after j cb' c)"
    proof (cases same')
      case True
      then have "decide e' c (checks c + j) = Wait"
        using h unfolding same'_def by (simp add: d c0 fields)
      with before have "\<forall>i\<le>j. decide e' c (checks c + i) = Wait"
        by (auto simp add: le_less)
      then have "turns j e' (check e' c) = waiting_after (Suc j) c"
        using c0(2) run_waits by blast
      with True show ?thesis by simp
    next
      case False
      then have "decide e' c (checks c + j) = Done cb'"
        using h unfolding same'_def cb'_def by (simp add: d c0 fields)
      with before have "turns j e' (check e' c) = finished_after j cb' c"
        using c0(2) run_reaches_done by blast
      with False show ?thesis by simp
    qed
    then show "turns j e' (start e' (FontWatchRunner e' f d True opt))
              = (if ?same' then waiting_after (Suc j) ?c else finished_after j ?cb' ?c)"
      by (simp only: start_armed c_def same'_def cb'_def)
  qed
  show ?thesis
    using one two three unfolding same_def orig_def by (intro conjI) assumption+
qed

text \<open>
  Three runs. Sizes unchanged since \<open>start\<close> at the check of index 1: one more check
  waits. Sizes back at the originals at the check of index 2: inactive. Sizes changed
  to something else at the check of index 2: active.
\<close>

theorem check_with_bug_before_timeout_witness:
  "turns 1 env_bug_reverts
     (start env_bug_reverts (FontWatchRunner env_bug_reverts ''Foo'' ''n4'' True None))
   = waiting_after (Suc 1)
       (armed env_bug_reverts (FontWatchRunner env_bug_reverts ''Foo'' ''n4'' True None))
   \<and> turns 2 env_bug_reverts
     (start env_bug_reverts (FontWatchRunner env_bug_reverts ''Foo'' ''n4'' True None))
   = finished_after 2 Inactive
       (armed env_bug_reverts (FontWatchRunner env_bug_reverts ''Foo'' ''n4'' True None))
   \<and> turns 2 env_bug_font_arrives
     (start env_bug_font_arrives (FontWatchRunner env_bug_font_arrives ''Foo'' ''n4'' True None))
   = finished_after 2 Active
       (armed env_bug_font_arrives
          (FontWatchRunner env_bug_font_arrives ''Foo'' ''n4'' True None))"
proof -
  let ?r = "armed env_bug_reverts (FontWatchRunner env_bug_reverts ''Foo'' ''n4'' True None)"
  let ?a = "armed env_bug_font_arrives
              (FontWatchRunner env_bug_font_arrives ''Foo'' ''n4'' True None)"
  have r: "hasWebkitFallbackBug (waiting_after 2 ?r)"
    "webkitFallbackSizeA (waiting_after 2 ?r) \<noteq> None"
    "webkitFallbackSizeB (waiting_after 2 ?r) \<noteq> None"
    "started (waiting_after 2 ?r) = Some 0"
    "tickTime env_bug_reverts (checks (waiting_after 2 ?r)) - 0 < 5000"
    by (simp_all add: waiting_after_def env_bug_reverts_def sz_def)
  have a: "hasWebkitFallbackBug (waiting_after 2 ?a)"
    "webkitFallbackSizeA (waiting_after 2 ?a) \<noteq> None"
    "webkitFallbackSizeB (waiting_after 2 ?a) \<noteq> None"
    "started (waiting_after 2 ?a) = Some 0"
    "tickTime env_bug_font_arrives (checks (waiting_after 2 ?a)) - 0 < 5000"
    by (simp_all add: waiting_after_def env_bug_font_arrives_def sz_def)
  show ?thesis
    using check_with_bug_before_timeout
      [OF r, where e' = env_bug_reverts and j = 1 and f = "''Foo''" and d = "''n4''"
         and opt = None, THEN conjunct2, THEN conjunct2]
      check_with_bug_before_timeout
      [OF r, where e' = env_bug_reverts and j = 2 and f = "''Foo''" and d = "''n4''"
         and opt = None, THEN conjunct2, THEN conjunct2]
      check_with_bug_before_timeout
      [OF a, where e' = env_bug_font_arrives and j = 2 and f = "''Foo''" and d = "''n4''"
         and opt = None, THEN conjunct2, THEN conjunct2]
    by (simp add: env_bug_reverts_def env_bug_font_arrives_def sz_def)
qed

subsection \<open>C7: finishing removes the rulers, then calls back\<close>

text \<open>
  C7. \<open>finish\<close> removes ruler A, then ruler B, then calls the callback with the font
  family and the font description, whatever the callback. At every moment of every run
  (after any number of scheduler turns), either no callback has been called and no
  ruler removed, or the trace ends with the removal of A, the removal of B and the one
  callback, called with the family and description the runner was built with, and
  nothing before them is a removal or a callback: each ruler is removed exactly once.
\<close>

theorem finish_removes_both_rulers_first:
  assumes "s = turns n e (start e (FontWatchRunner e f d bug opt))"
  shows "trace (finish cb s') =
           trace s' @ [Remove A, Remove B, Callback cb (fontFamily s') (fontDescription s')]
       \<and> (callbacks (trace s) = []
            \<and> count_list (trace s) (Remove A) = 0 \<and> count_list (trace s) (Remove B) = 0
          \<or> (\<exists>pre cb'. trace s = pre @ [Remove A, Remove B, Callback cb' f d]
                \<and> callbacks pre = []
                \<and> count_list pre (Remove A) = 0 \<and> count_list pre (Remove B) = 0))"
proof -
  define c where "c = armed e (FontWatchRunner e f d bug opt)"
  have quiet: "callbacks (trace c) = []" "count_list (trace c) (Remove A) = 0"
    "count_list (trace c) (Remove B) = 0"
    by (simp_all add: c_def)
  consider (waiting) "s = waiting_after (Suc n) c"
    | (finished) j cb' where "s = finished_after j cb' c"
    using start_cases_decided[of n e f d bug opt] assms unfolding c_def by auto
  then have "callbacks (trace s) = []
            \<and> count_list (trace s) (Remove A) = 0 \<and> count_list (trace s) (Remove B) = 0
          \<or> (\<exists>pre cb'. trace s = pre @ [Remove A, Remove B, Callback cb' f d]
                \<and> callbacks pre = []
                \<and> count_list pre (Remove A) = 0 \<and> count_list pre (Remove B) = 0)"
  proof cases
    case waiting
    then show ?thesis using quiet by simp
  next
    case finished
    let ?pre = "trace c @ polls j @ [GetSize A, GetSize B]"
    have "trace s = ?pre @ [Remove A, Remove B, Callback cb' f d]"
      using finished by (simp add: last_check_def c_def)
    moreover have "callbacks ?pre = []" "count_list ?pre (Remove A) = 0"
      "count_list ?pre (Remove B) = 0"
      using quiet by simp_all
    ultimately show ?thesis by blast
  qed
  then show ?thesis by (simp add: method_traces)
qed

text \<open>The run in which ruler B changes at the check of index 3, after three turns.\<close>

theorem finish_removes_both_rulers_first_witness:
  "\<exists>pre cb'. trace (turns 3 env_font_arrives
        (start env_font_arrives (FontWatchRunner env_font_arrives ''Foo'' ''n4'' False None)))
       = pre @ [Remove A, Remove B, Callback cb' ''Foo'' ''n4'']
     \<and> callbacks pre = []
     \<and> count_list pre (Remove A) = 0 \<and> count_list pre (Remove B) = 0"
proof -
  have "turns 3 env_font_arrives
        (start env_font_arrives (FontWatchRunner env_font_arrives ''Foo'' ''n4'' False None))
     = finished_after 3 Active
        (armed env_font_arrives (FontWatchRunner env_font_arrives ''Foo'' ''n4'' False None))"
    by (simp add: eval_nat_numeral start_armed turn_def check_def Let_def hasTimedOut_def
        sizeEquals_def asyncCheck_def asyncCall_def finish_def emit_def finished_after_def
        polls_def last_check_def env_font_arrives_def sz_def)
  then have "callbacks (trace (turns 3 env_font_arrives
        (start env_font_arrives (FontWatchRunner env_font_arrives ''Foo'' ''n4'' False None))))
      \<noteq> []"
    by simp
  then show ?thesis
    using finish_removes_both_rulers_first
      [of "turns 3 env_font_arrives
        (start env_font_arrives (FontWatchRunner env_font_arrives ''Foo'' ''n4'' False None))"
        3 env_font_arrives "''Foo''" "''n4''" False None]
    by simp
qed

subsection \<open>C9: at most one check waits in the scheduler\<close>

text \<open>
  C9. At every moment of a run at most one check waits in the scheduler. Once a
  callback has been called nothing waits, and no further turn of the scheduler changes
  anything: no check runs again, although the runner keeps no flag and cancels
  nothing. A call of \<open>check\<close> measures and then either calls \<open>asyncCheck\<close> once, which
  adds one closure to the scheduler, or calls \<open>finish\<close>, which adds none.
\<close>

theorem at_most_one_check_pending:
  assumes "s = turns n e (start e (FontWatchRunner e f d bug opt))"
  shows "length (queue s) \<le> 1
       \<and> (callbacks (trace s) \<noteq> [] \<longrightarrow> queue s = [] \<and> (\<forall>m. turns m e s = s))
       \<and> (check e s' = asyncCheck (measured s') \<or> (\<exists>cb. check e s' = finish cb (measured s')))
       \<and> queue (measured s') = queue s'
       \<and> queue (asyncCheck s') = queue s' @ [25]
       \<and> queue (finish cb s') = queue s'"
proof -
  define c where "c = armed e (FontWatchRunner e f d bug opt)"
  have quiet: "callbacks (trace c) = []"
    by (simp add: c_def)
  consider (waiting) "s = waiting_after (Suc n) c"
    | (finished) j cb' where "s = finished_after j cb' c"
    using start_cases_decided[of n e f d bug opt] assms unfolding c_def by auto
  then have "length (queue s) \<le> 1
       \<and> (callbacks (trace s) \<noteq> [] \<longrightarrow> queue s = [] \<and> (\<forall>m. turns m e s = s))"
  proof cases
    case waiting
    then show ?thesis using quiet by simp
  next
    case finished
    then show ?thesis by (simp add: turns_finished)
  qed
  then show ?thesis
    using check_either[of e s'] by (simp add: method_queues)
qed

text \<open>The run in which ruler B changes at the check of index 3, after three turns.\<close>

theorem at_most_one_check_pending_witness:
  "length (queue (turns 3 env_font_arrives
      (start env_font_arrives (FontWatchRunner env_font_arrives ''Foo'' ''n4'' False None)))) \<le> 1
   \<and> queue (turns 3 env_font_arrives
      (start env_font_arrives (FontWatchRunner env_font_arrives ''Foo'' ''n4'' False None))) = []
   \<and> (\<forall>m. turns m env_font_arrives (turns 3 env_font_arrives
      (start env_font_arrives (FontWatchRunner env_font_arrives ''Foo'' ''n4'' False None)))
       = turns 3 env_font_arrives
      (start env_font_arrives (FontWatchRunner env_font_arrives ''Foo'' ''n4'' False None)))"
proof -
  have "turns 3 env_font_arrives
        (start env_font_arrives (FontWatchRunner env_font_arrives ''Foo'' ''n4'' False None))
     = finished_after 3 Active
        (armed env_font_arrives (FontWatchRunner env_font_arrives ''Foo'' ''n4'' False None))"
    by (simp add: eval_nat_numeral start_armed turn_def check_def Let_def hasTimedOut_def
        sizeEquals_def asyncCheck_def asyncCall_def finish_def emit_def finished_after_def
        polls_def last_check_def env_font_arrives_def sz_def)
  then have "callbacks (trace (turns 3 env_font_arrives
        (start env_font_arrives (FontWatchRunner env_font_arrives ''Foo'' ''n4'' False None))))
      \<noteq> []"
    by simp
  then show ?thesis
    using at_most_one_check_pending
      [of "turns 3 env_font_arrives
        (start env_font_arrives (FontWatchRunner env_font_arrives ''Foo'' ''n4'' False None))"
        3 env_font_arrives "''Foo''" "''n4''" False None]
    by simp
qed

subsection \<open>C10: the first check runs inside start\<close>

text \<open>
  C10. For every state and every environment, \<open>start\<close> calls \<open>check\<close> itself, once,
  after setting the fonts and without touching the scheduler: none of the calls before
  that first check is an \<open>AsyncCall\<close>. So when \<open>start\<close> returns, the first check has
  run: either it rescheduled and one check waits, or it finished and the callback has
  been called. At every later moment of the run the trace is the calls of the
  constructor and of \<open>start\<close>, then checks separated by one \<open>AsyncCall 25\<close> each: the
  delay of 25 ms stands before every check but the first. The example of the claim: no
  bug compensation, the timeout not reached and a first measurement that is not the
  original size; then the trace of \<open>start\<close> ends with the active callback and holds no
  \<open>AsyncCall\<close>, and nothing waits in the scheduler.
\<close>

theorem start_checks_synchronously:
  "start e s = check e (armed e s)
   \<and> queue (armed e s) = queue s \<and> checks (armed e s) = checks s
   \<and> trace (armed e s) = trace s @ start_calls s
   \<and> AsyncCall dl \<notin> set (start_calls s)
   \<and> checks (start e s) = Suc (checks s)
   \<and> (start e (FontWatchRunner e f d bug opt)
         = waiting_after 1 (armed e (FontWatchRunner e f d bug opt))
       \<or> (\<exists>cb. start e (FontWatchRunner e f d bug opt)
               = finished_after 0 cb (armed e (FontWatchRunner e f d bug opt))))
   \<and> (turns n e (start e (FontWatchRunner e f d bug opt))
         = waiting_after (Suc n) (armed e (FontWatchRunner e f d bug opt))
       \<or> (\<exists>j cb. j \<le> n \<and> turns n e (start e (FontWatchRunner e f d bug opt))
               = finished_after j cb (armed e (FontWatchRunner e f d bug opt))))
   \<and> (tickTime e 0 - startTime e < 5000
        \<and> \<not> ((tickSizeA e 0 = ctorSizeA e \<and> ctorSizeA e \<noteq> None)
              \<and> (tickSizeB e 0 = ctorSizeB e \<and> ctorSizeB e \<noteq> None))
      \<longrightarrow> trace (start e (FontWatchRunner e f d False opt)) =
            [Insert A, SetFont A DEFAULT_FONTS_A d, GetSize A,
             Insert B, SetFont B DEFAULT_FONTS_B d, GetSize B,
             SetFont A (f @ '','' @ DEFAULT_FONTS_A) d,
             SetFont B (f @ '','' @ DEFAULT_FONTS_B) d,
             GetSize A, GetSize B, Remove A, Remove B, Callback Active f d]
        \<and> queue (start e (FontWatchRunner e f d False opt)) = []
        \<and> checks (start e (FontWatchRunner e f d False opt)) = 1)"
proof -
  have general: "start e s = check e (armed e s)"
    "queue (armed e s) = queue s" "checks (armed e s) = checks s"
    "trace (armed e s) = trace s @ start_calls s"
    "AsyncCall dl \<notin> set (start_calls s)"
    "checks (start e s) = Suc (checks s)"
    by (simp_all add: start_armed checks_check)
  have later: "turns n e (start e (FontWatchRunner e f d bug opt))
         = waiting_after (Suc n) (armed e (FontWatchRunner e f d bug opt))
       \<or> (\<exists>j cb. j \<le> n \<and> turns n e (start e (FontWatchRunner e f d bug opt))
               = finished_after j cb (armed e (FontWatchRunner e f d bug opt)))" for n
    using start_cases_decided[of n e f d bug opt] by blast
  have first: "start e (FontWatchRunner e f d bug opt)
         = waiting_after 1 (armed e (FontWatchRunner e f d bug opt))
       \<or> (\<exists>cb. start e (FontWatchRunner e f d bug opt)
               = finished_after 0 cb (armed e (FontWatchRunner e f d bug opt)))"
    using later[of 0] by auto
  have example: "tickTime e 0 - startTime e < 5000
        \<and> \<not> ((tickSizeA e 0 = ctorSizeA e \<and> ctorSizeA e \<noteq> None)
              \<and> (tickSizeB e 0 = ctorSizeB e \<and> ctorSizeB e \<noteq> None))
      \<longrightarrow> trace (start e (FontWatchRunner e f d False opt)) =
            [Insert A, SetFont A DEFAULT_FONTS_A d, GetSize A,
             Insert B, SetFont B DEFAULT_FONTS_B d, GetSize B,
             SetFont A (f @ '','' @ DEFAULT_FONTS_A) d,
             SetFont B (f @ '','' @ DEFAULT_FONTS_B) d,
             GetSize A, GetSize B, Remove A, Remove B, Callback Active f d]
        \<and> queue (start e (FontWatchRunner e f d False opt)) = []
        \<and> checks (start e (FontWatchRunner e f d False opt)) = 1"
  proof
    define c where "c = armed e (FontWatchRunner e f d False opt)"
    define unchanged where "unchanged \<longleftrightarrow>
      (tickSizeA e 0 = ctorSizeA e \<and> ctorSizeA e \<noteq> None)
      \<and> (tickSizeB e 0 = ctorSizeB e \<and> ctorSizeB e \<noteq> None)"
    assume "tickTime e 0 - startTime e < 5000
        \<and> \<not> ((tickSizeA e 0 = ctorSizeA e \<and> ctorSizeA e \<noteq> None)
              \<and> (tickSizeB e 0 = ctorSizeB e \<and> ctorSizeB e \<noteq> None))"
    then have h: "tickTime e 0 - startTime e < 5000" "\<not> unchanged"
      by (simp_all add: unchanged_def)
    have "(sizeEquals (tickSizeA e 0) (originalSizeA c)
            \<and> sizeEquals (tickSizeB e 0) (originalSizeB c)) = unchanged"
      by (simp add: sizeEquals_present unchanged_def c_def)
    then have "decide e c (checks c) = Done Active"
      using h by (simp add: decide_def c_def Let_def hasTimedOut_def)
    moreover have "queue c = []" by (simp add: c_def)
    ultimately have "check e c = finished_after 0 Active c"
      by (rule check_done)
    then have "start e (FontWatchRunner e f d False opt) = finished_after 0 Active c"
      by (simp add: start_armed c_def)
    then show "trace (start e (FontWatchRunner e f d False opt)) =
            [Insert A, SetFont A DEFAULT_FONTS_A d, GetSize A,
             Insert B, SetFont B DEFAULT_FONTS_B d, GetSize B,
             SetFont A (f @ '','' @ DEFAULT_FONTS_A) d,
             SetFont B (f @ '','' @ DEFAULT_FONTS_B) d,
             GetSize A, GetSize B, Remove A, Remove B, Callback Active f d]
        \<and> queue (start e (FontWatchRunner e f d False opt)) = []
        \<and> checks (start e (FontWatchRunner e f d False opt)) = 1"
      by (simp add: c_def start_calls_def polls_0 last_check_def)
  qed
  show ?thesis
    using general first later[of n] example by (intro conjI) assumption+
qed

text \<open>
  A font that is there from the beginning: the first check measures \<open>{14, 5}\<close> and
  \<open>{25, 8}\<close> against originals \<open>{10, 5}\<close> and \<open>{20, 8}\<close>, and the active callback is
  called inside \<open>start\<close>. And a run whose first check waits: it has run once when
  \<open>start\<close> returns.
\<close>

theorem start_checks_synchronously_witness:
  "trace (start env_font_cached (FontWatchRunner env_font_cached ''Foo'' ''n4'' False None)) =
     [Insert A, SetFont A DEFAULT_FONTS_A ''n4'', GetSize A,
      Insert B, SetFont B DEFAULT_FONTS_B ''n4'', GetSize B,
      SetFont A (''Foo'' @ '','' @ DEFAULT_FONTS_A) ''n4'',
      SetFont B (''Foo'' @ '','' @ DEFAULT_FONTS_B) ''n4'',
      GetSize A, GetSize B, Remove A, Remove B, Callback Active ''Foo'' ''n4'']
   \<and> queue (start env_font_cached
               (FontWatchRunner env_font_cached ''Foo'' ''n4'' False None)) = []
   \<and> checks (start env_font_arrives
                (FontWatchRunner env_font_arrives ''Foo'' ''n4'' False None)) = Suc 0"
proof -
  have cached: "tickTime env_font_cached 0 - startTime env_font_cached < 5000
        \<and> \<not> ((tickSizeA env_font_cached 0 = ctorSizeA env_font_cached
                \<and> ctorSizeA env_font_cached \<noteq> None)
              \<and> (tickSizeB env_font_cached 0 = ctorSizeB env_font_cached
                \<and> ctorSizeB env_font_cached \<noteq> None))"
    by (simp add: env_font_cached_def sz_def)
  have "checks (FontWatchRunner env_font_arrives ''Foo'' ''n4'' False None) = 0"
    by simp
  then show ?thesis
    using start_checks_synchronously
      [where e = env_font_cached and f = "''Foo''" and d = "''n4''" and opt = None]
      start_checks_synchronously
      [where e = env_font_arrives
         and s = "FontWatchRunner env_font_arrives ''Foo'' ''n4'' False None"]
      cached
    by metis
qed

subsection \<open>C8: the constants\<close>

text \<open>
  C8, as the code has it. The default font stacks are the strings
  \<open>arial,'URW Gothic L',sans-serif\<close> and \<open>Georgia,'Century Schoolbook L',serif\<close>, with
  no space after the commas; the timeout holds exactly when 5000 ms or more have
  elapsed since \<open>started\<close>; \<open>asyncCheck\<close> asks for a delay of 25 ms, and at every moment
  of every run each delay asked for so far, and each delay waiting, is 25 ms.
\<close>

theorem contract_constants:
  assumes "s = turns n e (start e (FontWatchRunner e f d bug opt))"
  shows "DEFAULT_FONTS_A = ''arial,'URW Gothic L',sans-serif''
       \<and> DEFAULT_FONTS_B = ''Georgia,'Century Schoolbook L',serif''
       \<and> (hasTimedOut e k (s'\<lparr>started := Some t\<rparr>) \<longleftrightarrow> 5000 \<le> tickTime e k - t)
       \<and> asyncCheck s' = asyncCall 25 s'
       \<and> trace (asyncCheck s') = trace s' @ [AsyncCall 25]
       \<and> queue (asyncCheck s') = queue s' @ [25]
       \<and> (AsyncCall dl \<in> set (trace s) \<longrightarrow> dl = 25)
       \<and> (dl \<in> set (queue s) \<longrightarrow> dl = 25)"
proof -
  define c where "c = armed e (FontWatchRunner e f d bug opt)"
  have quiet: "AsyncCall dl \<notin> set (trace c)"
    by (simp add: c_def)
  consider (waiting) "s = waiting_after (Suc n) c"
    | (finished) j cb' where "s = finished_after j cb' c"
    using start_cases_decided[of n e f d bug opt] assms unfolding c_def by auto
  then have "(AsyncCall dl \<in> set (trace s) \<longrightarrow> dl = 25)
           \<and> (dl \<in> set (queue s) \<longrightarrow> dl = 25)"
  proof cases
    case waiting
    then show ?thesis using quiet asyncCalls_polls[of dl "Suc n"] by auto
  next
    case finished
    then show ?thesis using quiet asyncCalls_polls[of dl j] by (auto simp add: last_check_def)
  qed
  then have run: "AsyncCall dl \<in> set (trace s) \<longrightarrow> dl = 25"
    "dl \<in> set (queue s) \<longrightarrow> dl = 25"
    by simp_all
  have fonts: "DEFAULT_FONTS_A = ''arial,'URW Gothic L',sans-serif''"
    "DEFAULT_FONTS_B = ''Georgia,'Century Schoolbook L',serif''"
    by (simp_all add: DEFAULT_FONTS_A_def DEFAULT_FONTS_B_def)
  have timeout: "hasTimedOut e k (s'\<lparr>started := Some t\<rparr>) \<longleftrightarrow> 5000 \<le> tickTime e k - t"
    by (simp add: hasTimedOut_def)
  have delay: "asyncCheck s' = asyncCall 25 s'"
    "trace (asyncCheck s') = trace s' @ [AsyncCall 25]"
    "queue (asyncCheck s') = queue s' @ [25]"
    by (simp add: asyncCheck_def) (simp_all add: method_traces method_queues)
  show ?thesis
    using fonts timeout delay run by (intro conjI) assumption+
qed

text \<open>
  The timeout holds at the check of index 200 (5000 ms) and not at index 199
  (4975 ms); after one turn a delay of 25 ms waits.
\<close>

theorem contract_constants_witness:
  "DEFAULT_FONTS_A = ''arial,'URW Gothic L',sans-serif''
   \<and> DEFAULT_FONTS_B = ''Georgia,'Century Schoolbook L',serif''
   \<and> hasTimedOut env_font_arrives 200
        ((FontWatchRunner env_font_arrives ''Foo'' ''n4'' False None)\<lparr>started := Some 0\<rparr>)
   \<and> \<not> hasTimedOut env_font_arrives 199
        ((FontWatchRunner env_font_arrives ''Foo'' ''n4'' False None)\<lparr>started := Some 0\<rparr>)
   \<and> queue (turns 1 env_font_arrives
        (start env_font_arrives (FontWatchRunner env_font_arrives ''Foo'' ''n4'' False None)))
      = [25]"
proof -
  have q: "queue (turns 1 env_font_arrives
        (start env_font_arrives (FontWatchRunner env_font_arrives ''Foo'' ''n4'' False None)))
      = [25]"
    by (simp add: eval_nat_numeral start_armed turn_def check_def Let_def hasTimedOut_def
        sizeEquals_def asyncCheck_def asyncCall_def finish_def emit_def
        env_font_arrives_def sz_def)
  show ?thesis
    using contract_constants
      [of "turns 1 env_font_arrives
        (start env_font_arrives (FontWatchRunner env_font_arrives ''Foo'' ''n4'' False None))"
        1 env_font_arrives "''Foo''" "''n4''" False None 200 0
        "FontWatchRunner env_font_arrives ''Foo'' ''n4'' False None" 25]
      contract_constants
      [of "turns 1 env_font_arrives
        (start env_font_arrives (FontWatchRunner env_font_arrives ''Foo'' ''n4'' False None))"
        1 env_font_arrives "''Foo''" "''n4''" False None 199 0
        "FontWatchRunner env_font_arrives ''Foo'' ''n4'' False None" 25]
      q
    by (simp add: env_font_arrives_def)
qed

text \<open>The font stacks are not the strings with a space after each comma.\<close>

theorem contract_constants_counterexample:
  "DEFAULT_FONTS_A \<noteq> ''arial, 'URW Gothic L', sans-serif''
   \<and> DEFAULT_FONTS_B \<noteq> ''Georgia, 'Century Schoolbook L', serif''"
  by (simp add: DEFAULT_FONTS_A_def DEFAULT_FONTS_B_def)

subsection \<open>C5: rulers that cannot be measured\<close>

text \<open>
  C5, as the code has it without bug compensation. Suppose every measurement from
  \<open>start\<close> on is absent. An absent measurement is equal to nothing, so the first
  check, inside \<open>start\<close>, reads it as a change and finishes at once: with the active
  callback, unless the clock already reads 5000 ms or more past \<open>started\<close>, and then
  with the inactive one. No check waits, and the run ends there.
\<close>

theorem absent_measurements:
  assumes "\<forall>k. tickSizeA e k = None" and "\<forall>k. tickSizeB e k = None"
  shows "run e f d False opt = Some (start e (FontWatchRunner e f d False opt))
       \<and> trace (start e (FontWatchRunner e f d False opt)) =
           [Insert A, SetFont A DEFAULT_FONTS_A d, GetSize A,
            Insert B, SetFont B DEFAULT_FONTS_B d, GetSize B,
            SetFont A (f @ '','' @ DEFAULT_FONTS_A) d,
            SetFont B (f @ '','' @ DEFAULT_FONTS_B) d,
            GetSize A, GetSize B, Remove A, Remove B,
            Callback (if 5000 \<le> tickTime e 0 - startTime e then Inactive else Active) f d]
       \<and> queue (start e (FontWatchRunner e f d False opt)) = []"
proof -
  define c where "c = armed e (FontWatchRunner e f d False opt)"
  define cb where "cb = (if 5000 \<le> tickTime e 0 - startTime e then Inactive else Active)"
  have "decide e c (checks c) = Done cb"
    using assms
    by (simp add: decide_def c_def cb_def Let_def hasTimedOut_def sizeEquals_iff)
  moreover have "queue c = []" by (simp add: c_def)
  ultimately have "check e c = finished_after 0 cb c"
    by (rule check_done)
  then have fin: "start e (FontWatchRunner e f d False opt) = finished_after 0 cb c"
    by (simp add: start_armed c_def)
  have "event_loop e (finished_after 0 cb c) = Some (finished_after 0 cb c)"
    by (subst event_loop.simps) simp
  then have ends: "run e f d False opt = Some (start e (FontWatchRunner e f d False opt))"
    by (simp add: run_def fin)
  have calls: "trace (start e (FontWatchRunner e f d False opt)) =
           [Insert A, SetFont A DEFAULT_FONTS_A d, GetSize A,
            Insert B, SetFont B DEFAULT_FONTS_B d, GetSize B,
            SetFont A (f @ '','' @ DEFAULT_FONTS_A) d,
            SetFont B (f @ '','' @ DEFAULT_FONTS_B) d,
            GetSize A, GetSize B, Remove A, Remove B,
            Callback (if 5000 \<le> tickTime e 0 - startTime e then Inactive else Active) f d]"
    unfolding fin by (simp add: c_def cb_def polls_0 start_calls_def last_check_def)
  have nothing_waits: "queue (start e (FontWatchRunner e f d False opt)) = []"
    unfolding fin by simp
  show ?thesis
    using ends calls nothing_waits by (intro conjI) assumption+
qed

text \<open>
  Rulers that can never be measured, without bug compensation.
\<close>

theorem absent_measurements_witness:
  "run env_never_measurable ''Foo'' ''n4'' False None =
     Some (start env_never_measurable
             (FontWatchRunner env_never_measurable ''Foo'' ''n4'' False None))
   \<and> trace (start env_never_measurable
               (FontWatchRunner env_never_measurable ''Foo'' ''n4'' False None)) =
       [Insert A, SetFont A DEFAULT_FONTS_A ''n4'', GetSize A,
        Insert B, SetFont B DEFAULT_FONTS_B ''n4'', GetSize B,
        SetFont A (''Foo'' @ '','' @ DEFAULT_FONTS_A) ''n4'',
        SetFont B (''Foo'' @ '','' @ DEFAULT_FONTS_B) ''n4'',
        GetSize A, GetSize B, Remove A, Remove B, Callback Active ''Foo'' ''n4'']"
  using absent_measurements [of env_never_measurable "''Foo''" "''n4''" None]
  by (simp add: env_never_measurable_def)

text \<open>
  With rulers that can never be measured and the clock still at \<open>started\<close>, a runner
  without bug compensation calls the active callback inside \<open>start\<close>.
\<close>

theorem absent_measurements_counterexample:
  "callbacks (trace (start env_never_measurable
                      (FontWatchRunner env_never_measurable ''Foo'' ''n4'' False None))) =
     [Callback Active ''Foo'' ''n4'']
   \<and> queue (start env_never_measurable
               (FontWatchRunner env_never_measurable ''Foo'' ''n4'' False None)) = []
   \<and> tickTime env_never_measurable 0 - startTime env_never_measurable = 0"
  by (simp add: start_def check_def Let_def hasTimedOut_def sizeEquals_def finish_def
      emit_def FontWatchRunner_def env_never_measurable_def)

subsection \<open>C1: one callback, once\<close>

text \<open>
  C1. Every run should call exactly one callback, exactly once. The code does not at
  this input: bug compensation, and rulers that cannot be measured at the moment
  \<open>start\<close> sets the fonts. No fallback size is recorded, and \<open>start\<close> is the only place
  that records them. Every check then only asks for another check: the run never ends
  and no callback is ever called, although the clock passes 5000 ms (at the check of
  index 200) and the rulers measure sizes that are not the original ones.
\<close>

theorem run_without_snapshots_never_calls_back:
  "run env_no_snapshot ''Foo'' ''n4'' True None = None
   \<and> (\<forall>n. callbacks (trace (turns n env_no_snapshot
              (start env_no_snapshot
                 (FontWatchRunner env_no_snapshot ''Foo'' ''n4'' True None)))) = []
          \<and> queue (turns n env_no_snapshot
              (start env_no_snapshot
                 (FontWatchRunner env_no_snapshot ''Foo'' ''n4'' True None))) = [25])
   \<and> 5000 \<le> tickTime env_no_snapshot 200 - startTime env_no_snapshot
   \<and> tickSizeA env_no_snapshot 200 \<noteq> ctorSizeA env_no_snapshot"
proof -
  define c where "c = armed env_no_snapshot (FontWatchRunner env_no_snapshot ''Foo'' ''n4'' True None)"
  have wait: "decide env_no_snapshot c k = Wait" for k
    by (rule decide_no_snapshot) (simp_all add: c_def env_no_snapshot_def)
  have st: "turns n env_no_snapshot (check env_no_snapshot c) = waiting_after (Suc n) c" for n
    by (rule run_waits) (simp_all add: wait, simp add: c_def)
  have "event_loop env_no_snapshot (check env_no_snapshot c) = None"
    by (rule event_loop_None) (simp add: st)
  then have never_ends: "run env_no_snapshot ''Foo'' ''n4'' True None = None"
    by (simp add: run_def start_armed c_def)
  have "callbacks (trace (turns n env_no_snapshot (check env_no_snapshot c))) = []
      \<and> queue (turns n env_no_snapshot (check env_no_snapshot c)) = [25]" for n
    by (simp add: st) (simp add: c_def)
  then have silent: "\<forall>n. callbacks (trace (turns n env_no_snapshot
              (start env_no_snapshot
                 (FontWatchRunner env_no_snapshot ''Foo'' ''n4'' True None)))) = []
          \<and> queue (turns n env_no_snapshot
              (start env_no_snapshot
                 (FontWatchRunner env_no_snapshot ''Foo'' ''n4'' True None))) = [25]"
    by (simp add: start_armed c_def)
  have late: "5000 \<le> tickTime env_no_snapshot 200 - startTime env_no_snapshot"
    "tickSizeA env_no_snapshot 200 \<noteq> ctorSizeA env_no_snapshot"
    by (simp_all add: env_no_snapshot_def sz_def)
  show ?thesis
    using never_ends silent late by (intro conjI) assumption+
qed

end
